theory Spec2Isabelle
  imports Complex_Main
begin

section \<open>Border strength on a grid of bisected circles\<close>

text \<open>
  A shallow embedding of \<^verbatim>\<open>FISHscale/spatial/boundaries.py\<close>. Coordinates, radii and bin
  sizes are Python and NumPy floats in the source; they are read here as real numbers, so
  rounding is left out. Counts are integers; where the source stores them in an
  \<^verbatim>\<open>int32\<close> array the wrap-around is written out. Every exception the source can raise
  is a value \<open>Inl e\<close> of a sum type.
\<close>

datatype error = ZeroDivisionError | ValueError | IndexError

type_synonym point = "real \<times> real"

type_synonym line = "point \<times> point"

subsection \<open>Arrays of two dimensions\<close>

text \<open>
  A NumPy array of two dimensions is its shape and its elements in row-major (C) order,
  so that an array with no row still has a number of columns, and \<^verbatim>\<open>reshape\<close> and
  \<^verbatim>\<open>ravel\<close> leave the elements where they are.
\<close>

record 'a array2 =
  nrows :: nat
  ncols :: nat
  flat :: "'a list"

text \<open>An array is well formed when it holds as many elements as its shape says.\<close>

definition wf_array2 :: "'a array2 \<Rightarrow> bool" where
  "wf_array2 a = (length (flat a) = nrows a * ncols a)"

subsection \<open>The grid\<close>

text \<open>
  \<^verbatim>\<open>np.linspace(start, stop, num)\<close> with the default \<^verbatim>\<open>endpoint=True\<close>: a negative
  \<^verbatim>\<open>num\<close> raises \<^verbatim>\<open>ValueError\<close>; otherwise \<^verbatim>\<open>num\<close> samples
  \<^verbatim>\<open>start + i * step\<close> with \<^verbatim>\<open>step = (stop - start) / (num - 1)\<close>, the last one
  overwritten with \<^verbatim>\<open>stop\<close> when there are at least two. With a single sample
  the divisor is \<open>0\<close> and the sample is \<^verbatim>\<open>start\<close>.
\<close>

definition linspace :: "real \<Rightarrow> real \<Rightarrow> int \<Rightarrow> error + real list" where
  "linspace start stop num =
     (if num < 0 then Inl ValueError
      else
        let n = nat num;
            delta = stop - start;
            step = (if 1 < n then delta / real (n - 1) else 0);
            y = map (\<lambda>i. start + real i * step) [0..<n]
        in Inr (if 1 < n then y[n - 1 := stop] else y))"

text \<open>
  \<^verbatim>\<open>np.meshgrid(xi, yi)\<close>: both results have shape \<^verbatim>\<open>(len(yi), len(xi))\<close>; the first
  repeats \<^verbatim>\<open>xi\<close> in every row, the second holds \<^verbatim>\<open>yi[r]\<close> all along row \<^verbatim>\<open>r\<close>.
\<close>

definition meshgrid :: "real list \<Rightarrow> real list \<Rightarrow> real array2 \<times> real array2" where
  "meshgrid xi yi =
     (\<lparr>nrows = length yi, ncols = length xi, flat = concat (replicate (length yi) xi)\<rparr>,
      \<lparr>nrows = length yi, ncols = length xi,
       flat = concat (map (\<lambda>y. replicate (length xi) y) yi)\<rparr>)"

text \<open>
  \<^verbatim>\<open>Boundaries.square_grid\<close>. The division \<^verbatim>\<open>x_extent / bin_size\<close> of two Python floats
  raises \<^verbatim>\<open>ZeroDivisionError\<close> when \<^verbatim>\<open>bin_size\<close> is zero; nothing else is checked, and
  the only other failure is the one of \<^verbatim>\<open>np.linspace\<close> on a negative number of samples.
  The X axis is built before the Y axis is looked at. The grid is the list of
  \<^verbatim>\<open>(x, y)\<close> rows of \<^verbatim>\<open>np.column_stack((Xi.ravel(), Yi.ravel()))\<close>.
\<close>

definition square_grid ::
  "real \<Rightarrow> real \<Rightarrow> real \<Rightarrow> real \<Rightarrow> real \<Rightarrow> real \<Rightarrow> real
     \<Rightarrow> error + (point list \<times> real array2 \<times> real array2)" where
  "square_grid bin_size x_extent y_extent x_min x_max y_min y_max =
     (if bin_size = 0 then Inl ZeroDivisionError
      else
        let nx = \<lceil>x_extent / bin_size\<rceil>;
            d_x = (real_of_int nx * bin_size) - x_extent
        in case linspace (x_min - (0.5 * d_x)) (x_max + (0.5 * d_x)) nx of
             Inl e \<Rightarrow> Inl e
           | Inr xi \<Rightarrow>
               let ny = \<lceil>y_extent / bin_size\<rceil>;
                   d_y = (real_of_int ny * bin_size) - y_extent
               in case linspace (y_min - (0.5 * d_y)) (y_max + (0.5 * d_y)) ny of
                    Inl e \<Rightarrow> Inl e
                  | Inr yi \<Rightarrow>
                      let (Xi, Yi) = meshgrid xi yi
                      in Inr (zip (flat Xi) (flat Yi), Xi, Yi))"

text \<open>The X coordinates of the grid, as \<^verbatim>\<open>square_grid\<close> passes them to \<^verbatim>\<open>np.meshgrid\<close>:
  the first row of \<^verbatim>\<open>Xi\<close>.\<close>

definition x_axis :: "real array2 \<Rightarrow> real list" where
  "x_axis Xi = take (ncols Xi) (flat Xi)"

subsection \<open>The counting worker\<close>

text \<open>
  \<^verbatim>\<open>isabove\<close>: the sign of the cross product of two plane vectors, as \<^verbatim>\<open>np.cross\<close>
  computes it for rows of two coordinates.
\<close>

definition vsub :: "point \<Rightarrow> point \<Rightarrow> point" where
  "vsub p q = (fst p - fst q, snd p - snd q)"

definition cross :: "point \<Rightarrow> point \<Rightarrow> real" where
  "cross a b = fst a * snd b - snd a * fst b"

definition isabove :: "point \<Rightarrow> line \<Rightarrow> bool" where
  "isabove p l = (cross (vsub p (fst l)) (vsub (snd l) (fst l)) < 0)"

text \<open>
  \<^verbatim>\<open>KDTree(points)\<close> of scikit-learn validates its data and raises \<^verbatim>\<open>ValueError\<close> on an
  array with no sample. The tree itself is not modelled: a tree answers a radius query
  with the same points as a scan of the data.
\<close>

definition KDTree :: "point list \<Rightarrow> error + point list" where
  "KDTree points = (if points = [] then Inl ValueError else Inr points)"

text \<open>
  A point is within the radius of a grid point when their Euclidean distance is at
  most the radius (the boundary is included); no distance is at most a negative radius.
  The comparison is on squared distances, as in the library.
\<close>

definition in_radius :: "point \<Rightarrow> real \<Rightarrow> point \<Rightarrow> bool" where
  "in_radius g r p = (0 \<le> r \<and> (fst p - fst g)\<^sup>2 + (snd p - snd g)\<^sup>2 \<le> r\<^sup>2)"

text \<open>
  \<^verbatim>\<open>tree.query_radius(grid, radius)\<close>: for every query point the indices of the data
  points within the radius. The queries are validated like the data, so an empty grid
  raises \<^verbatim>\<open>ValueError\<close>. The library gives the indices of one query in no particular
  order; the worker only counts them, and they are listed here in increasing order.
\<close>

definition query_radius :: "point list \<Rightarrow> point list \<Rightarrow> real \<Rightarrow> error + nat list list" where
  "query_radius tree grid radius =
     (if grid = [] then Inl ValueError
      else Inr (map (\<lambda>g. filter (\<lambda>k. in_radius g radius (tree ! k)) [0..<length tree]) grid))"

text \<open>
  A value stored in an array of \<^verbatim>\<open>dtype='int32'\<close> is reduced to the 32-bit
  two's-complement range.
\<close>

definition int32 :: "int \<Rightarrow> int" where
  "int32 x = (x + 2 ^ 31) mod 2 ^ 32 - 2 ^ 31"

text \<open>
  The inner loop \<^verbatim>\<open>for j, l in enumerate(lines): angle_counts[i, j] = isabove(cc, l).sum()\<close>
  on one row of \<^verbatim>\<open>angle_counts\<close>: an index \<^verbatim>\<open>j\<close> past the end of the row raises
  \<^verbatim>\<open>IndexError\<close>.
\<close>

fun bisect_row :: "point list \<Rightarrow> line list \<Rightarrow> nat \<Rightarrow> int list \<Rightarrow> error + int list" where
  "bisect_row cc [] j row = Inr row"
| "bisect_row cc (l # ls) j row =
     (if j < length row
      then bisect_row cc ls (Suc j) (row[j := int32 (int (length (filter (\<lambda>p. isabove p l) cc)))])
      else Inl IndexError)"

text \<open>
  The body of the outer loop \<^verbatim>\<open>for i, (c, g) in enumerate(zip(coords, grid))\<close>, on
  the row of one grid point: with no point in its radius the row of zeros is kept;
  otherwise the points are centred on the grid point and counted line by line.
\<close>

definition grid_point_row :: "point list \<Rightarrow> point \<Rightarrow> line list \<Rightarrow> nat \<Rightarrow> error + int list" where
  "grid_point_row c g lines n =
     (if 0 < length c
      then bisect_row (map (\<lambda>p. vsub p g) c) lines 0 (replicate n 0)
      else Inr (replicate n 0))"

fun bisect_rows :: "(point list \<times> point) list \<Rightarrow> line list \<Rightarrow> nat \<Rightarrow> error + int list list" where
  "bisect_rows [] lines n = Inr []"
| "bisect_rows ((c, g) # rest) lines n =
     (case grid_point_row c g lines n of
        Inl e \<Rightarrow> Inl e
      | Inr row \<Rightarrow>
          (case bisect_rows rest lines n of
             Inl e \<Rightarrow> Inl e
           | Inr rows \<Rightarrow> Inr (row # rows)))"

text \<open>
  \<^verbatim>\<open>_worker_bisect\<close>. \<^verbatim>\<open>count\<close> is an array of Python integers (64 bits wide, far
  from overflow); \<^verbatim>\<open>np.zeros((grid.shape[0], n_angles), dtype='int32')\<close> raises
  \<^verbatim>\<open>ValueError\<close> on a negative dimension.
\<close>

definition worker_bisect ::
  "point list \<Rightarrow> point list \<Rightarrow> real \<Rightarrow> line list \<Rightarrow> int \<Rightarrow> error + (int list list \<times> int list)" where
  "worker_bisect points grid radius lines n_angles =
     (case KDTree points of
        Inl e \<Rightarrow> Inl e
      | Inr tree \<Rightarrow>
          (case query_radius tree grid radius of
             Inl e \<Rightarrow> Inl e
           | Inr index \<Rightarrow>
               let count = map (\<lambda>i. int (length i)) index;
                   coords = map (\<lambda>i. map (\<lambda>k. points ! k) i) index
               in if n_angles < 0 then Inl ValueError
                  else (case bisect_rows (zip coords grid) lines (nat n_angles) of
                          Inl e \<Rightarrow> Inl e
                        | Inr angle_counts \<Rightarrow> Inr (angle_counts, count))))"

subsection \<open>The angle-selection worker\<close>

text \<open>
  \<^verbatim>\<open>a[:, j]\<close>, column \<^verbatim>\<open>j\<close> of an array of two dimensions; a column that does not exist
  raises \<^verbatim>\<open>IndexError\<close>.
\<close>

definition at2 :: "'a array2 \<Rightarrow> nat \<Rightarrow> nat \<Rightarrow> 'a" where
  "at2 a i j = flat a ! (i * ncols a + j)"

definition column :: "'a array2 \<Rightarrow> nat \<Rightarrow> error + 'a list" where
  "column a j =
     (if j < ncols a then Inr (map (\<lambda>i. at2 a i j) [0..<nrows a]) else Inl IndexError)"

text \<open>
  \<^verbatim>\<open>scipy.spatial.distance.euclidean(u, v)\<close>: the 2-norm of \<^verbatim>\<open>u - v\<close>. The difference
  follows NumPy's broadcasting: vectors of equal length are subtracted element by
  element, a vector of length one is subtracted from (or has subtracted) every element
  of the other, and any other pair of lengths raises \<^verbatim>\<open>ValueError\<close>.
\<close>

definition broadcast_sub :: "real list \<Rightarrow> real list \<Rightarrow> error + real list" where
  "broadcast_sub u v =
     (if length u = length v then Inr (map (\<lambda>(x, y). x - y) (zip u v))
      else if length u = 1 then Inr (map (\<lambda>y. hd u - y) v)
      else if length v = 1 then Inr (map (\<lambda>x. x - hd v) u)
      else Inl ValueError)"

definition euclidean :: "real list \<Rightarrow> real list \<Rightarrow> error + real" where
  "euclidean u v =
     (case broadcast_sub u v of
        Inl e \<Rightarrow> Inl e
      | Inr u_v \<Rightarrow> Inr (sqrt (sum_list (map (\<lambda>x. x\<^sup>2) u_v))))"

text \<open>The loop \<^verbatim>\<open>for j in range(n_angles): dist[j] = distance.euclidean(d1[:,j], d2[:,j])\<close>.\<close>

fun dist_loop :: "real array2 \<Rightarrow> real array2 \<Rightarrow> nat list \<Rightarrow> error + real list" where
  "dist_loop d1 d2 [] = Inr []"
| "dist_loop d1 d2 (j # js) =
     (case column d1 j of
        Inl e \<Rightarrow> Inl e
      | Inr u \<Rightarrow>
          (case column d2 j of
             Inl e \<Rightarrow> Inl e
           | Inr v \<Rightarrow>
               (case euclidean u v of
                  Inl e \<Rightarrow> Inl e
                | Inr d \<Rightarrow>
                    (case dist_loop d1 d2 js of
                       Inl e \<Rightarrow> Inl e
                     | Inr ds \<Rightarrow> Inr (d # ds)))))"

text \<open>
  \<^verbatim>\<open>dist.max()\<close> and \<^verbatim>\<open>dist.argmax()\<close>: both raise \<^verbatim>\<open>ValueError\<close> on an empty array;
  \<^verbatim>\<open>argmax\<close> scans from the left and moves only to a strictly larger element.
\<close>

definition np_max :: "real list \<Rightarrow> error + real" where
  "np_max xs = (case xs of [] \<Rightarrow> Inl ValueError | x # xs' \<Rightarrow> Inr (fold max xs' x))"

fun argmax_scan :: "real list \<Rightarrow> nat \<Rightarrow> real \<Rightarrow> nat \<Rightarrow> nat" where
  "argmax_scan [] i best bi = bi"
| "argmax_scan (x # xs) i best bi =
     (if best < x then argmax_scan xs (Suc i) x i else argmax_scan xs (Suc i) best bi)"

definition np_argmax :: "real list \<Rightarrow> error + nat" where
  "np_argmax xs = (case xs of [] \<Rightarrow> Inl ValueError | x # xs' \<Rightarrow> Inr (argmax_scan xs' 1 x 0))"

text \<open>\<^verbatim>\<open>_worker_angle\<close>. \<^verbatim>\<open>np.zeros(n_angles)\<close> raises \<^verbatim>\<open>ValueError\<close> on a negative size.\<close>

definition worker_angle :: "int \<Rightarrow> real array2 \<Rightarrow> real array2 \<Rightarrow> error + (real \<times> nat)" where
  "worker_angle n_angles d1 d2 =
     (if n_angles < 0 then Inl ValueError
      else
        (case dist_loop d1 d2 [0..<nat n_angles] of
           Inl e \<Rightarrow> Inl e
         | Inr dists \<Rightarrow>
             (case np_max dists of
                Inl e \<Rightarrow> Inl e
              | Inr m \<Rightarrow>
                  (case np_argmax dists of
                     Inl e \<Rightarrow> Inl e
                   | Inr k \<Rightarrow> Inr (m, k)))))"

text \<open>
  The distance the specification describes for one angle: each gene is one coordinate,
  and the distance is taken between the vector of above counts and the vector of
  below counts at that angle.
\<close>

definition angle_distance :: "real array2 \<Rightarrow> real array2 \<Rightarrow> nat \<Rightarrow> real" where
  "angle_distance d1 d2 j = sqrt (\<Sum>g<nrows d1. (at2 d1 g j - at2 d2 g j)\<^sup>2)"

subsection \<open>Bisection lines\<close>





subsection \<open>Erosion of the mask\<close>

text \<open>
  \<^verbatim>\<open>scipy.ndimage.binary_erosion(input, iterations=n)\<close> with its defaults. No structuring
  element is passed, so the library takes \<^verbatim>\<open>generate_binary_structure(2, 1)\<close>: the pixel and
  its four neighbours along the axes. \<^verbatim>\<open>border_value\<close> is 0: a pixel outside of the array
  counts as false. One pass keeps a pixel when the five pixels of the element are true.
\<close>

definition pixel :: "bool array2 \<Rightarrow> int \<Rightarrow> int \<Rightarrow> bool" where
  "pixel a i j =
     (0 \<le> i \<and> i < int (nrows a) \<and> 0 \<le> j \<and> j < int (ncols a) \<and>
      flat a ! (nat i * ncols a + nat j))"

definition erode1 :: "bool array2 \<Rightarrow> bool array2" where
  "erode1 a =
     a\<lparr>flat :=
         map (\<lambda>k. let i = int (k div ncols a); j = int (k mod ncols a)
                  in pixel a i j \<and> pixel a (i - 1) j \<and> pixel a (i + 1) j \<and>
                     pixel a i (j - 1) \<and> pixel a i (j + 1))
           [0..<nrows a * ncols a]\<rparr>"

definition count_true :: "bool list \<Rightarrow> nat" where
  "count_true xs = length (filter (\<lambda>b. b) xs)"


lemma erode1_shape [simp]:
  "nrows (erode1 a) = nrows a" "ncols (erode1 a) = ncols a"
  "length (flat (erode1 a)) = nrows a * ncols a"
  by (simp_all add: erode1_def)








subsection \<open>The orchestrator\<close>

text \<open>
  The dataset that \<^verbatim>\<open>boundaries_make\<close> reads through \<^verbatim>\<open>self\<close>. Its methods are not in
  this file: \<^verbatim>\<open>get_gene\<close> gives the points of a gene, \<^verbatim>\<open>normalize\<close> a table of
  normalized counts for a table of counts and a mode.
\<close>

record dataset =
  x_extent :: real
  y_extent :: real
  x_min :: real
  x_max :: real
  y_min :: real
  y_max :: real
  unique_genes :: "string list"
  get_gene :: "string \<Rightarrow> point list"
  normalize :: "int list list \<Rightarrow> string \<Rightarrow> real list list"






text \<open>
  \<^verbatim>\<open>xs[mask]\<close> along the first axis: the elements at the true positions of the mask, in
  order. NumPy wants a mask as long as the axis; in \<^verbatim>\<open>boundaries_make\<close> both are as long
  as the grid.
\<close>

definition bool_index :: "bool list \<Rightarrow> 'a list \<Rightarrow> 'a list" where
  "bool_index msk xs = map snd (filter fst (zip msk xs))"











text \<open>
  Lines 282 and 283: \<^verbatim>\<open>image[filt_grid] = values\<close>. The values go, in order, to the true
  positions of the mask, in row-major order. NumPy raises \<^verbatim>\<open>IndexError\<close> for a mask of
  another shape, and \<^verbatim>\<open>ValueError\<close> when the number of values is neither the number of
  true positions nor one; a single value goes to every true position.
\<close>

fun scatter :: "'a list \<Rightarrow> bool list \<Rightarrow> 'a list \<Rightarrow> 'a list" where
  "scatter [] ms vs = []"
| "scatter (a # as) [] vs = a # as"
| "scatter (a # as) (False # ms) vs = a # scatter as ms vs"
| "scatter (a # as) (True # ms) [] = a # scatter as ms []"
| "scatter (a # as) (True # ms) (v # vs) = v # scatter as ms vs"





subsection \<open>The texture worker\<close>







subsection \<open>A small dataset\<close>




section \<open>Properties of the grid\<close>

lemma linspace_length:
  "linspace start stop num = Inr ys \<Longrightarrow> length ys = nat num"
  by (auto simp: linspace_def Let_def split: if_splits)

lemma linspace_error_iff:
  "(\<exists>e. linspace start stop num = Inl e) \<longleftrightarrow> num < 0"
  by (simp add: linspace_def Let_def)

lemma linspace_nth:
  assumes "linspace start stop num = Inr ys" and "2 \<le> num" and "i < nat num"
  shows "ys ! i = start + real i * ((stop - start) / real (nat num - 1))"
proof -
  let ?n = "nat num"
  let ?step = "(stop - start) / real (?n - 1)"
  from assms(2) have n: "1 < ?n" by simp
  with assms(1) have ys: "ys = (map (\<lambda>i. start + real i * ?step) [0..<?n])[?n - 1 := stop]"
    by (simp add: linspace_def Let_def split: if_splits)
  show ?thesis
  proof (cases "i = ?n - 1")
    case True
    from n have "real (?n - 1) \<noteq> 0" by simp
    then have "start + real (?n - 1) * ?step = stop" by simp
    with True n ys show ?thesis by simp
  next
    case False
    with assms(3) ys show ?thesis by simp
  qed
qed

text \<open>
  The distance between two neighbouring samples of \<^verbatim>\<open>np.linspace\<close> is the span divided
  by one less than the number of samples.
\<close>

lemma linspace_spacing:
  assumes "linspace start stop num = Inr ys" and "2 \<le> num" and "Suc i < nat num"
  shows "ys ! Suc i - ys ! i = (stop - start) / real (nat num - 1)"
proof -
  from assms have a: "ys ! Suc i = start + real (Suc i) * ((stop - start) / real (nat num - 1))"
    by (intro linspace_nth) auto
  from assms have b: "ys ! i = start + real i * ((stop - start) / real (nat num - 1))"
    by (intro linspace_nth) auto
  have "start + real (Suc i) * s - (start + real i * s) = s" for s :: real
    by (simp add: algebra_simps)
  then show ?thesis unfolding a b .
qed

text \<open>
  C1. The claim: for every positive bin size the distance between consecutive grid
  coordinates along each axis is the bin size. The source asks \<^verbatim>\<open>np.linspace\<close> for
  \<^verbatim>\<open>nx\<close> samples over a span of \<^verbatim>\<open>nx * bin_size\<close>, so the distance is
  \<^verbatim>\<open>nx * bin_size / (nx - 1)\<close>. At bin size 1 on the square from (0, 0) to (2, 2) the grid
  is the four corners: its coordinates are 2 apart on both axes, not 1.
\<close>

theorem C1_square_grid_spacing_failing_input:
  "square_grid 1 2 2 0 2 0 2 =
     Inr ([(0, 0), (2, 0), (0, 2), (2, 2)],
          \<lparr>nrows = 2, ncols = 2, flat = [0, 2, 0, 2]\<rparr>,
          \<lparr>nrows = 2, ncols = 2, flat = [0, 0, 2, 2]\<rparr>)
   \<and> x_axis \<lparr>nrows = 2, ncols = 2, flat = [0, 2, 0, 2]\<rparr> ! 1
       - x_axis \<lparr>nrows = 2, ncols = 2, flat = [0, 2, 0, 2]\<rparr> ! 0 \<noteq> (1::real)"
  by (simp add: square_grid_def linspace_def meshgrid_def x_axis_def Let_def upt_rec
      numeral_2_eq_2)


text \<open>
  C3 (as amended). The claim: a non-positive bin size or radius is reported to the caller
  as a validation error. \<^verbatim>\<open>square_grid\<close> checks nothing. It raises exactly when the bin
  size is zero (the division fails) or when the number of bins \<^verbatim>\<open>ceil(extent / bin_size)\<close>
  is negative on an axis (\<^verbatim>\<open>np.linspace\<close> refuses it); in every other case, a negative
  bin size included, it returns a grid.
\<close>

theorem C3_square_grid_raises_iff:
  "square_grid bin_size xe ye x0 x1 y0 y1 = Inl e \<longleftrightarrow>
     (bin_size = 0 \<and> e = ZeroDivisionError) \<or>
     (bin_size \<noteq> 0 \<and> (\<lceil>xe / bin_size\<rceil> < 0 \<or> \<lceil>ye / bin_size\<rceil> < 0) \<and> e = ValueError)"
  by (auto simp: square_grid_def linspace_def meshgrid_def Let_def split: sum.splits if_splits)

theorem C3_square_grid_raises_iff_witness:
  "square_grid (-10) 25 5 0 25 0 5 = Inl ValueError"
proof -
  have "\<lceil>(25::real) / (-10)\<rceil> < 0" by code_simp
  then show ?thesis
    using C3_square_grid_raises_iff [of "-10" 25 5 0 25 0 5 ValueError] by simp
qed

text \<open>
  A bin size of \<open>-10\<close> on a dataset of extent 5 by 5 gives zero bins on both axes, and
  \<^verbatim>\<open>square_grid\<close> returns the empty grid of shape \<open>(0, 0)\<close> without any error.
\<close>

theorem C3_negative_bin_size_counterexample:
  "(-10::real) \<le> 0 \<and>
   square_grid (-10) 5 5 0 5 0 5 =
     Inr ([], \<lparr>nrows = 0, ncols = 0, flat = []\<rparr>, \<lparr>nrows = 0, ncols = 0, flat = []\<rparr>)"
proof -
  have c: "\<lceil>(5::real) / (-10)\<rceil> = 0" by code_simp
  show ?thesis
    unfolding square_grid_def Let_def c
    by (simp add: linspace_def meshgrid_def)
qed

section \<open>Properties of the counting worker\<close>


lemma bisect_row_returns:
  "j + length ls \<le> length row \<Longrightarrow> \<exists>row'. bisect_row cc ls j row = Inr row'"
  by (induction cc ls j row rule: bisect_row.induct) auto

lemma bisect_row_nth:
  "bisect_row cc ls j row = Inr row' \<Longrightarrow> k < length row \<Longrightarrow>
   row' ! k = (if j \<le> k \<and> k < j + length ls
               then int32 (int (length (filter (\<lambda>p. isabove p (ls ! (k - j))) cc)))
               else row ! k)"
proof (induction cc ls j row arbitrary: row' rule: bisect_row.induct)
  case (1 cc j row)
  then show ?case by simp
next
  case (2 cc l ls j row)
  from "2.prems" have j: "j < length row"
    and r: "bisect_row cc ls (Suc j) (row[j := int32 (int (length (filter (\<lambda>p. isabove p l) cc)))]) = Inr row'"
    by (auto split: if_splits)
  from "2.IH" [OF j r] "2.prems"(2)
  have ih: "row' ! k = (if Suc j \<le> k \<and> k < Suc j + length ls
               then int32 (int (length (filter (\<lambda>p. isabove p (ls ! (k - Suc j))) cc)))
               else row[j := int32 (int (length (filter (\<lambda>p. isabove p l) cc)))] ! k)"
    by simp
  show ?case
  proof (cases "k = j")
    case True
    with ih j show ?thesis by simp
  next
    case False
    with ih j show ?thesis by (auto simp: nth_Cons')
  qed
qed

lemma int32_id: "0 \<le> x \<Longrightarrow> x < 2 ^ 31 \<Longrightarrow> int32 x = x"
  by (simp add: int32_def)


lemma grid_point_row_returns:
  "length lines \<le> n \<Longrightarrow> \<exists>row. grid_point_row c g lines n = Inr row"
  using bisect_row_returns [of 0 lines "replicate n 0"]
  by (simp add: grid_point_row_def)


lemma grid_point_row_empty: "grid_point_row [] g lines n = Inr (replicate n 0)"
  by (simp add: grid_point_row_def)

lemma grid_point_row_nth:
  assumes "grid_point_row c g lines n = Inr row" and "j < n"
  shows "row ! j = (if c \<noteq> [] \<and> j < length lines
                    then int32 (int (length (filter (\<lambda>p. isabove p (lines ! j)) (map (\<lambda>p. vsub p g) c))))
                    else 0)"
proof (cases "c = []")
  case True
  with assms show ?thesis by (auto simp: grid_point_row_def)
next
  case False
  with assms(1) have "bisect_row (map (\<lambda>p. vsub p g) c) lines 0 (replicate n 0) = Inr row"
    by (simp add: grid_point_row_def)
  from bisect_row_nth [OF this, of j] assms(2) False show ?thesis by simp
qed

lemma bisect_rows_returns:
  "length lines \<le> n \<Longrightarrow> \<exists>rows. bisect_rows cgs lines n = Inr rows"
proof (induction cgs)
  case Nil
  then show ?case by simp
next
  case (Cons cg cgs)
  then obtain rows where rows: "bisect_rows cgs lines n = Inr rows" by auto
  obtain c g where cg: "cg = (c, g)" by (cases cg)
  from Cons.prems obtain row where "grid_point_row c g lines n = Inr row"
    using grid_point_row_returns by blast
  with rows cg show ?case by simp
qed

lemma bisect_rows_nth:
  "bisect_rows cgs lines n = Inr rows \<Longrightarrow> i < length cgs \<Longrightarrow>
   grid_point_row (fst (cgs ! i)) (snd (cgs ! i)) lines n = Inr (rows ! i)"
proof (induction cgs arbitrary: rows i)
  case Nil
  then show ?case by simp
next
  case (Cons cg cgs)
  obtain c g where cg: "cg = (c, g)" by (cases cg)
  from Cons.prems(1) cg obtain row rest where
    row: "grid_point_row c g lines n = Inr row"
    and rest: "bisect_rows cgs lines n = Inr rest" and rows: "rows = row # rest"
    by (auto split: sum.splits)
  show ?case
  proof (cases i)
    case 0
    with row rows cg show ?thesis by simp
  next
    case (Suc k)
    with Cons.prems(2) have "k < length cgs" by simp
    from Cons.IH [OF rest this] Suc rows show ?thesis by simp
  qed
qed

text \<open>Every entry of the worker's matrix is a stored count or an untouched zero.\<close>

lemma worker_bisect_Inr:
  assumes "worker_bisect points grid radius lines n_angles = Inr (ac, cnt)"
  shows "points \<noteq> []" and "grid \<noteq> []" and "0 \<le> n_angles"
    and "cnt = map (\<lambda>g. int (length (filter (\<lambda>k. in_radius g radius (points ! k)) [0..<length points]))) grid"
    and "bisect_rows (zip (map (\<lambda>g. map (\<lambda>k. points ! k) (filter (\<lambda>k. in_radius g radius (points ! k)) [0..<length points])) grid) grid) lines (nat n_angles) = Inr ac"
  using assms
  by (auto simp: worker_bisect_def KDTree_def query_radius_def Let_def comp_def
      split: sum.splits if_splits)

lemma worker_bisect_row:
  assumes w: "worker_bisect points grid radius lines n_angles = Inr (ac, cnt)"
    and i: "i < length grid"
  shows "grid_point_row
           (map (\<lambda>k. points ! k) (filter (\<lambda>k. in_radius (grid ! i) radius (points ! k)) [0..<length points]))
           (grid ! i) lines (nat n_angles) = Inr (ac ! i)"
proof -
  let ?idx = "\<lambda>g. filter (\<lambda>k. in_radius g radius (points ! k)) [0..<length points]"
  let ?coords = "map (\<lambda>g. map (\<lambda>k. points ! k) (?idx g)) grid"
  from i have i': "i < length (zip ?coords grid)" by simp
  from bisect_rows_nth [OF worker_bisect_Inr(5) [OF w] i'] i show ?thesis by simp
qed


lemma worker_bisect_entry:
  assumes w: "worker_bisect points grid radius lines n_angles = Inr (ac, cnt)"
    and i: "i < length grid" and j: "j < nat n_angles"
  shows "ac ! i ! j = 0 \<or> (\<exists>m. 0 \<le> m \<and> m \<le> cnt ! i \<and> ac ! i ! j = int32 m)"
proof -
  let ?c = "map (\<lambda>k. points ! k) (filter (\<lambda>k. in_radius (grid ! i) radius (points ! k)) [0..<length points])"
  let ?cc = "map (\<lambda>p. vsub p (grid ! i)) ?c"
  from worker_bisect_Inr(4) [OF w] i have c: "cnt ! i = int (length ?c)" by simp
  note e = grid_point_row_nth [OF worker_bisect_row [OF w i] j]
  show ?thesis
  proof (cases "?c \<noteq> [] \<and> j < length lines")
    case True
    have "length (filter (\<lambda>p. isabove p (lines ! j)) ?cc) \<le> length ?cc"
      by (rule length_filter_le)
    then have le: "int (length (filter (\<lambda>p. isabove p (lines ! j)) ?cc)) \<le> cnt ! i"
      using c by simp
    from e True
    have eq: "ac ! i ! j = int32 (int (length (filter (\<lambda>p. isabove p (lines ! j)) ?cc)))"
      by simp
    have "0 \<le> int (length (filter (\<lambda>p. isabove p (lines ! j)) ?cc))" by simp
    with le eq show ?thesis by blast
  next
    case False
    with e show ?thesis by auto
  qed
qed

text \<open>A grid point with no point in its radius: a count of zero and a row of zeros.\<close>

lemma worker_bisect_zero_count:
  assumes w: "worker_bisect points grid radius lines n_angles = Inr (ac, cnt)"
    and i: "i < length grid" and z: "cnt ! i = 0"
  shows "ac ! i = replicate (nat n_angles) 0"
proof -
  from worker_bisect_Inr(4) [OF w] i z
  have "filter (\<lambda>k. in_radius (grid ! i) radius (points ! k)) [0..<length points] = []"
    by simp
  with worker_bisect_row [OF w i] show ?thesis by (simp add: grid_point_row_empty)
qed

text \<open>
  C4 (as amended). The claim: on an empty point set the counting worker does not raise
  and gives zeros in place of the counts. The first thing the worker does is to build the
  spatial index, and the index refuses data with no sample: on an empty point set the
  worker raises \<^verbatim>\<open>ValueError\<close>, whatever the grid, the radius and the lines are.
\<close>

theorem C4_empty_point_set_raises:
  "worker_bisect [] grid radius lines n_angles = Inl ValueError"
  by (simp add: worker_bisect_def KDTree_def)

text \<open>The empty point set on a grid of one point, with one line: no zeros, an error.\<close>

theorem C4_empty_point_set_counterexample:
  "worker_bisect [] [(0, 0)] 1 [((1, 0), (-1, 0))] 1 = Inl ValueError"
  by (simp add: worker_bisect_def KDTree_def)

text \<open>
  C8. For a point set that is not empty, a grid point with no point within the radius
  gets a row of zeros in the matrix of above counts and a total count of 0, and the
  worker returns. The worker is called the way \<^verbatim>\<open>boundaries_make\<close> calls it: the number of
  angles is not negative and there are at most that many lines.
\<close>

theorem C8_no_point_in_radius:
  assumes "points \<noteq> []" and "0 \<le> n_angles" and "length lines \<le> nat n_angles"
    and "i < length grid"
    and "\<forall>k < length points. \<not> in_radius (grid ! i) radius (points ! k)"
  shows "\<exists>angle_counts count.
           worker_bisect points grid radius lines n_angles = Inr (angle_counts, count) \<and>
           angle_counts ! i = replicate (nat n_angles) 0 \<and> count ! i = 0"
proof -
  let ?idx = "\<lambda>g. filter (\<lambda>k. in_radius g radius (points ! k)) [0..<length points]"
  let ?coords = "map (\<lambda>g. map (\<lambda>k. points ! k) (?idx g)) grid"
  let ?cnt = "map (\<lambda>g. int (length (?idx g))) grid"
  from assms(4) have grid: "grid \<noteq> []" by auto
  from assms(3) obtain ac where ac: "bisect_rows (zip ?coords grid) lines (nat n_angles) = Inr ac"
    using bisect_rows_returns by blast
  from assms(1,2) grid ac
  have w: "worker_bisect points grid radius lines n_angles = Inr (ac, ?cnt)"
    by (simp add: worker_bisect_def KDTree_def query_radius_def Let_def comp_def)
  from assms(5) have "?idx (grid ! i) = []"
    by (auto simp: filter_empty_conv)
  with assms(4) have z: "?cnt ! i = 0" by simp
  from worker_bisect_zero_count [OF w assms(4) z] z w show ?thesis by blast
qed

theorem C8_no_point_in_radius_witness:
  "\<exists>angle_counts count.
     worker_bisect [(0, -1)] [(0, 0), (10, 10)] 1 [((1, 0), (-1, 0))] 1 = Inr (angle_counts, count) \<and>
     angle_counts ! 1 = replicate (nat 1) 0 \<and> count ! 1 = 0"
  using C8_no_point_in_radius [of "[(0, -1)]" 1 "[((1, 0), (-1, 0))]" 1 "[(0, 0), (10, 10)]" 1]
  by (simp add: in_radius_def)

text \<open>
  Where fewer than \<open>2\<^sup>3\<^sup>1\<close> points lie within the radius of a grid point, the
  counts stored for it are the counts themselves: between 0 and the total count.
\<close>

lemma above_count_bounds_below_int32_limit:
  assumes "worker_bisect points grid radius lines n_angles = Inr (angle_counts, count)"
    and "i < length grid" and "j < nat n_angles" and "count ! i < 2 ^ 31"
  shows "0 \<le> angle_counts ! i ! j \<and> angle_counts ! i ! j \<le> count ! i"
proof -
  from worker_bisect_Inr(4) [OF assms(1)] assms(2) have nonneg: "0 \<le> count ! i" by simp
  from worker_bisect_entry [OF assms(1-3)]
  consider "angle_counts ! i ! j = 0"
    | m where "0 \<le> m" "m \<le> count ! i" "angle_counts ! i ! j = int32 m"
    by blast
  then show ?thesis
  proof cases
    case 1
    with nonneg show ?thesis by simp
  next
    case 2
    with assms(4) have "int32 m = m" by (intro int32_id) auto
    with 2 show ?thesis by simp
  qed
qed

lemma worker_bisect_replicate:
  assumes "0 < n"
  shows "worker_bisect (replicate n (0, -1)) [(0, 0)] 1 [((1, 0), (-1, 0))] 1
           = Inr ([[int32 (int n)]], [int n])"
proof -
  let ?ps = "replicate n (0::real, -1::real)"
  have idx: "filter (\<lambda>k. in_radius (0, 0) 1 (?ps ! k)) [0..<n] = [0..<n]"
    by (rule filter_True) (simp add: in_radius_def)
  have q: "query_radius ?ps [(0, 0)] 1 = Inr [[0..<n]]"
    by (simp add: query_radius_def idx)
  have coords: "map (\<lambda>k. ?ps ! k) [0..<n] = ?ps"
    using map_nth [of ?ps] by simp
  have above: "isabove (vsub (0, -1) (0, 0)) ((1, 0), (-1, 0))"
    by (simp add: isabove_def vsub_def cross_def)
  have row: "grid_point_row ?ps (0, 0) [((1, 0), (-1, 0))] (Suc 0) = Inr [int32 (int n)]"
    using assms above by (simp add: grid_point_row_def)
  show ?thesis
    using assms by (simp add: worker_bisect_def KDTree_def q coords row)
qed

text \<open>
  C10. The claim: for every point set, every entry of the matrix of above counts lies
  between 0 and the total count of its grid point, so that no below count is negative.
  The docstring says the same: the matrix holds the count of points above the line, and
  the total count gives the count below. But the matrix is an \<^verbatim>\<open>int32\<close> array while the
  total counts are 64 bits wide. With \<open>2\<^sup>3\<^sup>1\<close> points on one spot above the line, all
  within the radius of the grid point, the total count is \<open>2\<^sup>3\<^sup>1\<close> and the matrix holds
  \<open>-2\<^sup>3\<^sup>1\<close>.
\<close>

theorem C10_int32_failing_input:
  "worker_bisect (replicate (2 ^ 31) (0, -1)) [(0, 0)] 1 [((1, 0), (-1, 0))] 1
     = Inr ([[- 2147483648]], [2147483648])
   \<and> \<not> (0::int) \<le> [[- 2147483648]] ! 0 ! 0"
  using worker_bisect_replicate [of "2 ^ 31"] by (simp add: int32_def)

section \<open>Properties of the angle-selection worker\<close>

lemma euclidean_same_length:
  "length u = length v \<Longrightarrow>
   euclidean u v = Inr (sqrt (\<Sum>g<length u. (u ! g - v ! g)\<^sup>2))"
proof -
  assume l: "length u = length v"
  have "map (\<lambda>x. x\<^sup>2) (map (\<lambda>(x, y). x - y) (zip u v))
          = map (\<lambda>g. (u ! g - v ! g)\<^sup>2) [0..<length u]"
    using l by (intro nth_equalityI) auto
  then have "sum_list (map (\<lambda>x. x\<^sup>2) (map (\<lambda>(x, y). x - y) (zip u v)))
          = (\<Sum>g<length u. (u ! g - v ! g)\<^sup>2)"
    by (simp add: interv_sum_list_conv_sum_set_nat lessThan_atLeast0)
  with l show ?thesis by (simp add: euclidean_def broadcast_sub_def)
qed

lemma dist_loop_angle_distance:
  assumes "nrows d1 = nrows d2" and "\<forall>j \<in> set js. j < ncols d1 \<and> j < ncols d2"
  shows "dist_loop d1 d2 js = Inr (map (angle_distance d1 d2) js)"
  using assms(2)
proof (induction js)
  case Nil
  then show ?case by simp
next
  case (Cons j js)
  then have ih: "dist_loop d1 d2 js = Inr (map (angle_distance d1 d2) js)" by simp
  from Cons.prems have j: "j < ncols d1" "j < ncols d2" by auto
  have "euclidean (map (\<lambda>i. at2 d1 i j) [0..<nrows d1]) (map (\<lambda>i. at2 d2 i j) [0..<nrows d2])
          = Inr (angle_distance d1 d2 j)"
    using assms(1) by (simp add: euclidean_same_length angle_distance_def)
  with j ih show ?case by (simp add: column_def)
qed

lemma argmax_scan_cases:
  "(argmax_scan xs i best bi = bi \<and> (\<forall>x \<in> set xs. x \<le> best)) \<or>
   (i \<le> argmax_scan xs i best bi \<and> argmax_scan xs i best bi < i + length xs \<and>
    best < xs ! (argmax_scan xs i best bi - i) \<and>
    (\<forall>j < argmax_scan xs i best bi - i. xs ! j < xs ! (argmax_scan xs i best bi - i)) \<and>
    (\<forall>x \<in> set xs. x \<le> xs ! (argmax_scan xs i best bi - i)))"
proof (induction xs arbitrary: i best bi)
  case Nil
  then show ?case by simp
next
  case (Cons x xs)
  show ?case
  proof (cases "best < x")
    case True
    let ?k = "argmax_scan xs (Suc i) x i"
    from True have k: "argmax_scan (x # xs) i best bi = ?k" by simp
    from Cons.IH [of "Suc i" x i]
    consider "?k = i" "\<forall>y \<in> set xs. y \<le> x"
      | "Suc i \<le> ?k" "?k < Suc i + length xs" "x < xs ! (?k - Suc i)"
        "\<forall>j < ?k - Suc i. xs ! j < xs ! (?k - Suc i)" "\<forall>y \<in> set xs. y \<le> xs ! (?k - Suc i)"
      by blast
    then show ?thesis
    proof cases
      case 1
      with True show ?thesis unfolding k by auto
    next
      case 2
      from 2(1) obtain d where d: "?k - i = Suc d" "?k - Suc i = d"
        by (metis Suc_diff_le diff_Suc_Suc)
      have "\<forall>j < Suc d. (x # xs) ! j < xs ! d"
      proof (intro allI impI)
        fix j assume "j < Suc d"
        then show "(x # xs) ! j < xs ! d"
          using 2(3,4) d by (cases j) auto
      qed
      moreover have "\<forall>y \<in> set (x # xs). y \<le> xs ! d"
        using 2(3,5) d by auto
      moreover have "best < xs ! d" using True 2(3) d by simp
      ultimately show ?thesis unfolding k using 2(1,2) d by auto
    qed
  next
    case False
    let ?k = "argmax_scan xs (Suc i) best bi"
    from False have k: "argmax_scan (x # xs) i best bi = ?k" by simp
    from Cons.IH [of "Suc i" best bi]
    consider "?k = bi" "\<forall>y \<in> set xs. y \<le> best"
      | "Suc i \<le> ?k" "?k < Suc i + length xs" "best < xs ! (?k - Suc i)"
        "\<forall>j < ?k - Suc i. xs ! j < xs ! (?k - Suc i)" "\<forall>y \<in> set xs. y \<le> xs ! (?k - Suc i)"
      by blast
    then show ?thesis
    proof cases
      case 1
      with False show ?thesis unfolding k by auto
    next
      case 2
      from 2(1) obtain d where d: "?k - i = Suc d" "?k - Suc i = d"
        by (metis Suc_diff_le diff_Suc_Suc)
      have "\<forall>j < Suc d. (x # xs) ! j < xs ! d"
      proof (intro allI impI)
        fix j assume "j < Suc d"
        then show "(x # xs) ! j < xs ! d"
          using 2(3,4) d False by (cases j) auto
      qed
      moreover have "\<forall>y \<in> set (x # xs). y \<le> xs ! d"
        using 2(3,5) d False by auto
      ultimately show ?thesis unfolding k using 2(1,2,3) d by auto
    qed
  qed
qed

lemma np_argmax_first_maximum:
  assumes "xs \<noteq> []"
  shows "\<exists>k. np_argmax xs = Inr k \<and> k < length xs \<and>
             (\<forall>j < length xs. xs ! j \<le> xs ! k) \<and> (\<forall>j < k. xs ! j < xs ! k)"
proof -
  from assms obtain x ys where xs: "xs = x # ys" by (cases xs) auto
  let ?k = "argmax_scan ys 1 x 0"
  have a: "np_argmax xs = Inr ?k" by (simp add: np_argmax_def xs)
  from argmax_scan_cases [of ys 1 x 0]
  consider "?k = 0" "\<forall>y \<in> set ys. y \<le> x"
    | "1 \<le> ?k" "?k < 1 + length ys" "x < ys ! (?k - 1)"
      "\<forall>j < ?k - 1. ys ! j < ys ! (?k - 1)" "\<forall>y \<in> set ys. y \<le> ys ! (?k - 1)"
    by auto
  then show ?thesis
  proof cases
    case 1
    have "\<forall>j < length xs. xs ! j \<le> x"
    proof (intro allI impI)
      fix j assume "j < length xs"
      then show "xs ! j \<le> x" using 1(2) xs by (cases j) auto
    qed
    with a 1(1) xs show ?thesis by simp
  next
    case 2
    from 2(1) obtain d where d: "?k = Suc d" by (cases ?k) auto
    have le: "\<forall>j < length xs. xs ! j \<le> ys ! d"
    proof (intro allI impI)
      fix j assume "j < length xs"
      then show "xs ! j \<le> ys ! d" using 2(3,5) d xs by (cases j) auto
    qed
    have lt: "\<forall>j < Suc d. xs ! j < ys ! d"
    proof (intro allI impI)
      fix j assume "j < Suc d"
      then show "xs ! j < ys ! d" using 2(3,4) d xs by (cases j) auto
    qed
    from a d 2(2) le lt xs show ?thesis by simp
  qed
qed

lemma np_max_Max: "xs \<noteq> [] \<Longrightarrow> np_max xs = Inr (Max (set xs))"
  by (cases xs) (simp_all add: np_max_def Max.set_eq_fold [symmetric])

text \<open>
  C6. Given the above and the below counts of one grid point as two tables, gene by
  angle, of the same shape with at least one angle, the angle-selection worker returns
  the largest of the Euclidean distances between the column of above counts and the
  column of below counts, and the index of the first angle at which the distance is the
  largest: no angle before it reaches it.
\<close>

theorem C6_worker_angle_first_maximum:
  assumes "0 < n_angles" and "ncols d1 = nat n_angles" and "ncols d2 = nat n_angles"
    and "nrows d1 = nrows d2"
  shows "\<exists>m k. worker_angle n_angles d1 d2 = Inr (m, k) \<and> k < nat n_angles \<and>
           m = angle_distance d1 d2 k \<and>
           (\<forall>j < nat n_angles. angle_distance d1 d2 j \<le> m) \<and>
           (\<forall>j < k. angle_distance d1 d2 j < m)"
proof -
  let ?n = "nat n_angles"
  let ?dist = "map (angle_distance d1 d2) [0..<?n]"
  from assms(2,3) have "\<forall>j \<in> set [0..<?n]. j < ncols d1 \<and> j < ncols d2" by simp
  from dist_loop_angle_distance [OF assms(4) this]
  have dl: "dist_loop d1 d2 [0..<?n] = Inr ?dist" .
  from assms(1) have ne: "?dist \<noteq> []" by simp
  from np_argmax_first_maximum [OF ne] obtain k where
    k: "np_argmax ?dist = Inr k" "k < ?n"
       "\<forall>j < ?n. ?dist ! j \<le> ?dist ! k" "\<forall>j < k. ?dist ! j < ?dist ! k"
    by auto
  have mx: "Max (set ?dist) = ?dist ! k"
  proof (rule Max_eqI)
    show "finite (set ?dist)" by simp
    show "y \<le> ?dist ! k" if "y \<in> set ?dist" for y
      using that k(3) by (auto simp: in_set_conv_nth)
    show "?dist ! k \<in> set ?dist" using k(2) by (intro nth_mem) simp
  qed
  from assms(1) dl k(1) np_max_Max [OF ne] mx
  have w: "worker_angle n_angles d1 d2 = Inr (?dist ! k, k)"
    by (simp add: worker_angle_def)
  from k(2) have dk: "?dist ! k = angle_distance d1 d2 k" by simp
  have le: "\<forall>j < ?n. angle_distance d1 d2 j \<le> ?dist ! k"
    using k(3) by simp
  have lt: "\<forall>j < k. angle_distance d1 d2 j < ?dist ! k"
    using k(2,4) by simp
  from w k(2) dk le lt show ?thesis by (intro exI [of _ "?dist ! k"] exI [of _ k]) simp
qed

theorem C6_worker_angle_first_maximum_witness:
  "worker_angle 2 \<lparr>nrows = 1, ncols = 2, flat = [2, 2]\<rparr> \<lparr>nrows = 1, ncols = 2, flat = [0, 0]\<rparr>
     = Inr (2, 0)"
proof -
  let ?d1 = "\<lparr>nrows = 1, ncols = 2, flat = [2, 2 :: real]\<rparr>"
  let ?d2 = "\<lparr>nrows = 1, ncols = 2, flat = [0, 0 :: real]\<rparr>"
  have d: "angle_distance ?d1 ?d2 0 = 2" "angle_distance ?d1 ?d2 1 = 2"
    by (simp_all add: angle_distance_def at2_def)
  from C6_worker_angle_first_maximum [of 2 ?d1 ?d2] obtain m k where
    w: "worker_angle 2 ?d1 ?d2 = Inr (m, k)" and k: "k < 2"
    and m: "m = angle_distance ?d1 ?d2 k"
    and first: "\<forall>j < k. angle_distance ?d1 ?d2 j < m"
    by auto
  from k consider "k = 0" | "k = 1" by linarith
  then show ?thesis
  proof cases
    case 1
    with w m d show ?thesis by simp
  next
    case 2
    with first m d have "(2::real) < 2" by auto
    then show ?thesis by simp
  qed
qed

section \<open>Properties of the validity mask\<close>


lemma flat_index_div_mod: "j < c \<Longrightarrow> (i * c + j) div c = i \<and> (i * c + j) mod (c::nat) = j"
  by simp

lemma wf_erode1 [simp]: "wf_array2 (erode1 a)"
  by (simp add: wf_array2_def)













section \<open>Properties of the orchestrator\<close>












lemma bool_index_Nil [simp]: "bool_index [] xs = []" "bool_index ms [] = []"
  by (simp_all add: bool_index_def)





lemma scatter_length [simp]: "length (scatter as ms vs) = length as"
  by (induction as ms vs rule: scatter.induct) simp_all

lemma count_true_Cons [simp]:
  "count_true (True # ms) = Suc (count_true ms)" "count_true (False # ms) = count_true ms"
  "count_true [] = 0"
  by (simp_all add: count_true_def)




















section \<open>Properties of the texture worker\<close>






end
